theory Spec2Isabelle
  imports Main "HOL-Library.Word" "HOL-Library.AList" "HOL-Library.Sublist"
begin

section \<open>Data model of the WebSocket hub\<close>

text \<open>
  The embedding follows \<^verbatim>\<open>internal/controllers/websocket_controller.go\<close>.
  Go's \<^verbatim>\<open>int64\<close> is a 64-bit word, a \<^verbatim>\<open>[]byte\<close> frame is a string, a
  \<^verbatim>\<open>time.Time\<close> is an instant counted as an integer. A \<^verbatim>\<open>*Client\<close> is
  the record of its fields: \<open>Conn\<close> is the handle of the connection it owns and \<open>Send\<close>
  is a reference to its mailbox channel, which lives in the channel store of the hub state.
\<close>

type_synonym int64 = "64 word"

type_synonym frame = string

record Client =
  Conn :: nat
  UserID :: int64
  Username :: string
  Send :: nat

record Message =
  SenderID :: int64
  SenderName :: string
  ReceiverID :: int64
  Content :: string
  Timestamp :: int

text \<open>
  A value received by the \<^verbatim>\<open>select\<close> of \<^verbatim>\<open>Run\<close>, tagged with the channel
  it arrived on (\<^verbatim>\<open>register\<close>, \<^verbatim>\<open>unregister\<close>, \<^verbatim>\<open>broadcast\<close>).
\<close>

datatype event = Register Client | Unregister Client | Broadcast Message

subsection \<open>Outcomes of a step\<close>

text \<open>
  A step of the hub either completes, or waits on a channel or on the mutex
  (\<open>Blocks\<close>), or panics as the Go runtime does.
\<close>

datatype fault = CloseOfClosedChannel | SendOnClosedChannel | UnlockOfUnlockedMutex

datatype 'a outcome = Ok 'a | Blocks | Panics fault

fun and_then :: "'a outcome \<Rightarrow> ('a \<Rightarrow> 'b outcome) \<Rightarrow> 'b outcome" where
  "and_then (Ok x) f = f x"
| "and_then Blocks f = Blocks"
| "and_then (Panics p) f = Panics p"

subsection \<open>Buffered channels\<close>

text \<open>
  A mailbox is the buffered channel \<^verbatim>\<open>make(chan []byte, 256)\<close>: the frames waiting
  in it, oldest first, and whether it has been closed. A send on a closed channel panics,
  a send on a full one waits for a receiver; closing a closed channel panics; a receive
  takes the oldest frame, waits on an empty open channel and reports the end of an empty
  closed one.
\<close>

record chan =
  buf :: "frame list"
  closed :: bool

definition mailbox_cap :: nat where
  "mailbox_cap = 256"

definition make_chan :: chan where
  "make_chan = \<lparr>buf = [], closed = False\<rparr>"

definition chan_send :: "chan \<Rightarrow> frame \<Rightarrow> chan outcome" where
  "chan_send q x =
     (if closed q then Panics SendOnClosedChannel
      else if length (buf q) < mailbox_cap then Ok (q\<lparr>buf := buf q @ [x]\<rparr>)
      else Blocks)"

definition chan_close :: "chan \<Rightarrow> chan outcome" where
  "chan_close q = (if closed q then Panics CloseOfClosedChannel else Ok (q\<lparr>closed := True\<rparr>))"

definition chan_recv :: "chan \<Rightarrow> (frame option \<times> chan) outcome" where
  "chan_recv q =
     (case buf q of
        x # rest \<Rightarrow> Ok (Some x, q\<lparr>buf := rest\<rparr>)
      | [] \<Rightarrow> (if closed q then Ok (None, q) else Blocks))"

subsection \<open>The controller and the channel store\<close>

text \<open>
  \<open>clients\<close> is the map \<^verbatim>\<open>map[int64]*Client\<close> as an association list (its order is
  the order in which \<^verbatim>\<open>range\<close> visits it), \<open>mu\<close> tells whether the mutex is held,
  \<open>chans\<close> is the store of mailbox channels and \<open>taken\<close> records, per channel, the frames
  that the \<^verbatim>\<open>range client.Send\<close> loop of its writer has received so far.
\<close>

record hub =
  clients :: "(int64 \<times> Client) list"
  mu :: bool
  chans :: "nat \<Rightarrow> chan"
  taken :: "nat \<Rightarrow> frame list"

definition NewWebSocketController :: hub where
  "NewWebSocketController =
     \<lparr>clients = [], mu = False, chans = (\<lambda>_. make_chan), taken = (\<lambda>_. [])\<rparr>"

definition Lock :: "hub \<Rightarrow> hub outcome" where
  "Lock s = (if mu s then Blocks else Ok (s\<lparr>mu := True\<rparr>))"

definition Unlock :: "hub \<Rightarrow> hub outcome" where
  "Unlock s = (if mu s then Ok (s\<lparr>mu := False\<rparr>) else Panics UnlockOfUnlockedMutex)"

section \<open>Presence frames\<close>

text \<open>
  \<^verbatim>\<open>notifyUserStatus\<close> builds its frame with
  \<^verbatim>\<open>fmt.Sprintf(`{"type":"status","data":%s}`, statusMessage)\<close>, where
  \<^verbatim>\<open>statusMessage\<close> is a struct of an \<^verbatim>\<open>int64\<close>, a \<^verbatim>\<open>string\<close> and a
  \<^verbatim>\<open>bool\<close>. Package \<^verbatim>\<open>fmt\<close> prints a struct under a verb as its fields
  between braces, separated by spaces, each under the same verb; \<^verbatim>\<open>%s\<close> prints a
  string as it is, and an operand of a type the verb does not fit as
  \<^verbatim>\<open>%!s(type=value)\<close>. The struct tags play no part in it.
\<close>

fun dec_nat :: "nat \<Rightarrow> string" where
  "dec_nat n =
     (if n < 10 then [''0123456789'' ! n]
      else dec_nat (n div 10) @ [''0123456789'' ! (n mod 10)])"

declare dec_nat.simps [simp del]

definition fmt_v_int64 :: "int64 \<Rightarrow> string" where
  "fmt_v_int64 n =
     (if sint n < 0 then ''-'' @ dec_nat (nat (- sint n)) else dec_nat (nat (sint n)))"

definition fmt_v_bool :: "bool \<Rightarrow> string" where
  "fmt_v_bool b = (if b then ''true'' else ''false'')"

definition fmt_bad_verb_s :: "string \<Rightarrow> string \<Rightarrow> string" where
  "fmt_bad_verb_s ty v = ''%!s('' @ ty @ ''='' @ v @ '')''"

definition fmt_s_statusMessage :: "int64 \<Rightarrow> string \<Rightarrow> bool \<Rightarrow> string" where
  "fmt_s_statusMessage userID username online =
     ''{'' @ fmt_bad_verb_s ''int64'' (fmt_v_int64 userID) @ '' '' @ username @ '' ''
       @ fmt_bad_verb_s ''bool'' (fmt_v_bool online) @ ''}''"

definition status_frame :: "int64 \<Rightarrow> string \<Rightarrow> bool \<Rightarrow> frame" where
  \<open>status_frame userID username online =
     ''{"type":"status","data":'' @ fmt_s_statusMessage userID username online @ ''}''\<close>

text \<open>
  The loop \<^verbatim>\<open>for id, client := range wsc.clients\<close> of \<^verbatim>\<open>notifyUserStatus\<close>:
  every entry whose key differs from \<open>userID\<close> is sent the frame.
\<close>

fun notify_range ::
  "(int64 \<times> Client) list \<Rightarrow> int64 \<Rightarrow> frame \<Rightarrow> (nat \<Rightarrow> chan) \<Rightarrow> (nat \<Rightarrow> chan) outcome" where
  "notify_range [] userID fr ch = Ok ch"
| "notify_range ((k, c) # rest) userID fr ch =
     (if k \<noteq> userID
      then and_then (chan_send (ch (Send c)) fr)
             (\<lambda>q. notify_range rest userID fr (ch(Send c := q)))
      else notify_range rest userID fr ch)"

definition notifyUserStatus :: "int64 \<Rightarrow> string \<Rightarrow> bool \<Rightarrow> hub \<Rightarrow> hub outcome" where
  "notifyUserStatus userID username online s =
     and_then (notify_range (clients s) userID (status_frame userID username online) (chans s))
       (\<lambda>ch. Ok (s\<lparr>chans := ch\<rparr>))"

section \<open>The hub loop\<close>

text \<open>
  The three branches of the \<^verbatim>\<open>select\<close> in \<^verbatim>\<open>Run\<close>. The part of a branch between
  \<^verbatim>\<open>wsc.mu.Lock()\<close> and \<^verbatim>\<open>wsc.mu.Unlock()\<close> is a definition of its own.
\<close>

definition register_locked :: "Client \<Rightarrow> hub \<Rightarrow> hub outcome" where
  "register_locked c s =
     and_then (Lock s)
       (\<lambda>s1. Unlock (s1\<lparr>clients := AList.update (UserID c) c (clients s1)\<rparr>))"

definition unregister_locked :: "Client \<Rightarrow> hub \<Rightarrow> hub outcome" where
  "unregister_locked c s =
     and_then (Lock s)
       (\<lambda>s1. and_then
          (case map_of (clients s1) (UserID c) of
             Some _ \<Rightarrow>
               and_then (chan_close (chans s1 (Send c)))
                 (\<lambda>q. Ok (s1\<lparr>clients := AList.delete (UserID c) (clients s1),
                             chans := (chans s1)(Send c := q)\<rparr>))
           | None \<Rightarrow> Ok s1)
          Unlock)"

definition broadcast_locked :: "Message \<Rightarrow> hub \<Rightarrow> hub outcome" where
  "broadcast_locked m s =
     and_then (Lock s)
       (\<lambda>s1. and_then
          (case map_of (clients s1) (ReceiverID m) of
             Some receiver \<Rightarrow>
               and_then (chan_send (chans s1 (Send receiver)) (Content m))
                 (\<lambda>q. Ok (s1\<lparr>chans := (chans s1)(Send receiver := q)\<rparr>))
           | None \<Rightarrow> Ok s1)
          Unlock)"

fun Run_step :: "event \<Rightarrow> hub \<Rightarrow> hub outcome" where
  "Run_step (Register c) s =
     and_then (register_locked c s) (notifyUserStatus (UserID c) (Username c) True)"
| "Run_step (Unregister c) s =
     and_then (unregister_locked c s) (notifyUserStatus (UserID c) (Username c) False)"
| "Run_step (Broadcast m) s = broadcast_locked m s"

text \<open>The loop of \<^verbatim>\<open>Run\<close> over the events it receives, in the order of receipt.\<close>

fun Run :: "event list \<Rightarrow> hub \<Rightarrow> hub outcome" where
  "Run [] s = Ok s"
| "Run (e # es) s = and_then (Run_step e s) (Run es)"

text \<open>
  The clients that a presence notification for \<open>userID\<close> is sent to: the entries of the
  registry under another key, in the order of the iteration.
\<close>

definition notified :: "(int64 \<times> Client) list \<Rightarrow> int64 \<Rightarrow> Client list" where
  "notified al userID = map snd (filter (\<lambda>(k, c). k \<noteq> userID) al)"

text \<open>
  A register or unregister event for \<open>c\<close> completes when the mutex is free and every
  mailbox of the fan-out is open and has room, the registry being a map (no key twice)
  whose other entries have mailboxes of their own.
\<close>

definition fanout_ready :: "hub \<Rightarrow> Client \<Rightarrow> bool" where
  "fanout_ready s c \<longleftrightarrow>
     \<not> mu s \<and> distinct (map fst (clients s))
     \<and> distinct (map Send (notified (clients s) (UserID c)))
     \<and> list_all (\<lambda>c'. Send c' \<noteq> Send c \<and> \<not> closed (chans s (Send c'))
                      \<and> length (buf (chans s (Send c'))) < mailbox_cap)
          (notified (clients s) (UserID c))"

text \<open>Reading one field of the state a run ends in.\<close>

fun on_ok :: "('a \<Rightarrow> 'b) \<Rightarrow> 'a outcome \<Rightarrow> 'b outcome" where
  "on_ok f (Ok x) = Ok (f x)"
| "on_ok f Blocks = Blocks"
| "on_ok f (Panics p) = Panics p"

section \<open>The reader and the writer of a connection\<close>

text \<open>
  \<^verbatim>\<open>readMessages\<close> over the results of its calls of \<^verbatim>\<open>Conn.ReadJSON\<close>: a decoded
  message comes with the value of \<^verbatim>\<open>time.Now()\<close> at its stamping; an error, or the end
  of what the transport delivers, ends the loop. The result is the list of events the
  reader submits to the hub; the deferred function submits the last one.
\<close>

datatype read_result = ReadError | ReadJSON Message int

definition stamp :: "Client \<Rightarrow> int \<Rightarrow> Message \<Rightarrow> Message" where
  "stamp client now msg =
     msg\<lparr>SenderID := UserID client, SenderName := Username client, Timestamp := now\<rparr>"

fun readMessages :: "Client \<Rightarrow> read_result list \<Rightarrow> event list" where
  "readMessages client [] = [Unregister client]"
| "readMessages client (ReadError # rest) = [Unregister client]"
| "readMessages client (ReadJSON msg now # rest) =
     Broadcast (stamp client now msg) # readMessages client rest"

text \<open>
  Two results of \<^verbatim>\<open>ReadJSON\<close> that differ at most in the sender fields of the wire
  frame.
\<close>

fun same_but_sender :: "read_result \<Rightarrow> read_result \<Rightarrow> bool" where
  "same_but_sender ReadError ReadError = True"
| "same_but_sender (ReadJSON m t) (ReadJSON m' t') =
     (ReceiverID m = ReceiverID m' \<and> Content m = Content m' \<and> Timestamp m = Timestamp m'
      \<and> t = t')"
| "same_but_sender _ _ = False"

fun broadcasts :: "event list \<Rightarrow> Message list" where
  "broadcasts [] = []"
| "broadcasts (Broadcast m # es) = m # broadcasts es"
| "broadcasts (_ # es) = broadcasts es"

text \<open>
  One turn of the loop \<^verbatim>\<open>for message := range client.Send\<close> of
  \<^verbatim>\<open>writeMessages\<close>: the oldest frame leaves the mailbox and is handed to
  \<^verbatim>\<open>Conn.WriteMessage\<close>; on a closed and empty mailbox the loop ends.
\<close>

definition writer_recv :: "Client \<Rightarrow> hub \<Rightarrow> hub outcome" where
  "writer_recv c s =
     and_then (chan_recv (chans s (Send c)))
       (\<lambda>(m, q). case m of
            Some x \<Rightarrow> Ok (s\<lparr>chans := (chans s)(Send c := q),
                              taken := (taken s)(Send c := taken s (Send c) @ [x])\<rparr>)
          | None \<Rightarrow> Ok s)"

text \<open>
  The hub loop and the writers run concurrently: a schedule is an interleaving of the
  events the hub processes and of turns of writers.
\<close>

datatype action = Hub event | Writer Client

fun exec :: "action list \<Rightarrow> hub \<Rightarrow> hub outcome" where
  "exec [] s = Ok s"
| "exec (Hub e # as) s = and_then (Run_step e s) (exec as)"
| "exec (Writer c # as) s = and_then (writer_recv c s) (exec as)"

fun hub_events :: "action list \<Rightarrow> event list" where
  "hub_events [] = []"
| "hub_events (Hub e # as) = e # hub_events as"
| "hub_events (Writer c # as) = hub_events as"

text \<open>Everything a mailbox has held so far: what its writer took, then what waits.\<close>

definition mailbox_stream :: "hub \<Rightarrow> nat \<Rightarrow> frame list" where
  "mailbox_stream s x = taken s x @ buf (chans s x)"

section \<open>Unregistration more than once\<close>

fun unregistered :: "event list \<Rightarrow> Client list" where
  "unregistered [] = []"
| "unregistered (Unregister c # es) = c # unregistered es"
| "unregistered (_ # es) = unregistered es"

text \<open>
  \<open>no_reclose u x es\<close>: in \<open>es\<close>, a later unregistration of a client with mailbox \<open>x\<close>
  is one of a client of user \<open>u\<close>, and none comes after a registration under \<open>u\<close>.
  \<open>unregister_guarded es\<close>: this holds after every unregistration in \<open>es\<close>.
\<close>

fun no_reclose :: "int64 \<Rightarrow> nat \<Rightarrow> event list \<Rightarrow> bool" where
  "no_reclose u x [] = True"
| "no_reclose u x (Register r # es) =
     (if UserID r = u then list_all (\<lambda>c. Send c \<noteq> x) (unregistered es)
      else no_reclose u x es)"
| "no_reclose u x (Unregister c # es) = ((Send c = x \<longrightarrow> UserID c = u) \<and> no_reclose u x es)"
| "no_reclose u x (Broadcast m # es) = no_reclose u x es"

fun unregister_guarded :: "event list \<Rightarrow> bool" where
  "unregister_guarded [] = True"
| "unregister_guarded (Unregister c # es) =
     (no_reclose (UserID c) (Send c) es \<and> unregister_guarded es)"
| "unregister_guarded (_ # es) = unregister_guarded es"

section \<open>Establishing a connection\<close>

text \<open>
  \<^verbatim>\<open>HandleConnections\<close>. The values that \<^verbatim>\<open>c.Get\<close> finds in the request context
  are dynamically typed. The result of \<^verbatim>\<open>upgrader.Upgrade\<close> (\<open>None\<close> for an error,
  the connection otherwise) and the channel that \<^verbatim>\<open>make\<close> returns are given. What the
  handler does is the record of its effects: the status it responds with, whether it
  called the upgrader, the events it submitted to the hub, the tasks it started, and
  whether a type assertion panicked.
\<close>

datatype any = AnyInt64 int64 | AnyString string | AnyOther

datatype task = Reader Client | WriterTask Client

record handled =
  response :: "nat option"
  upgrade_called :: bool
  submitted :: "event list"
  started :: "task list"
  panicked :: bool

definition StatusUnauthorized :: nat where
  "StatusUnauthorized = 401"

definition unauthorized :: handled where
  "unauthorized =
     \<lparr>response = Some StatusUnauthorized, upgrade_called = False, submitted = [],
      started = [], panicked = False\<rparr>"

definition HandleConnections :: "(string \<rightharpoonup> any) \<Rightarrow> nat option \<Rightarrow> nat \<Rightarrow> handled" where
  "HandleConnections ctx upgrade ch =
     (case ctx ''userID'' of
        None \<Rightarrow> unauthorized
      | Some userID \<Rightarrow>
          (case ctx ''username'' of
             None \<Rightarrow> unauthorized
           | Some username \<Rightarrow>
               (case upgrade of
                  None \<Rightarrow>
                    \<lparr>response = None, upgrade_called = True, submitted = [], started = [],
                     panicked = False\<rparr>
                | Some conn \<Rightarrow>
                    (case (userID, username) of
                       (AnyInt64 uid, AnyString name) \<Rightarrow>
                         (let client = \<lparr>Conn = conn, UserID = uid, Username = name, Send = ch\<rparr>
                          in \<lparr>response = None, upgrade_called = True,
                              submitted = [Register client],
                              started = [Reader client, WriterTask client],
                              panicked = False\<rparr>)
                     | _ \<Rightarrow>
                         \<lparr>response = None, upgrade_called = True, submitted = [],
                          started = [], panicked = True\<rparr>))))"

section \<open>Invariant of the closed mailboxes, and the clients of the scenarios\<close>

text \<open>
  The effect of a completed fan-out on the channel store: the frame is appended to the
  mailbox of each client of the list.
\<close>

definition deliver :: "Client list \<Rightarrow> frame \<Rightarrow> (nat \<Rightarrow> chan) \<Rightarrow> (nat \<Rightarrow> chan)" where
  "deliver cs fr ch =
     (\<lambda>x. if x \<in> Send ` set cs then (ch x)\<lparr>buf := buf (ch x) @ [fr]\<rparr> else ch x)"

text \<open>
  A mailbox that is closed and whose client is still to be unregistered has no entry
  under its user, and none is registered before that unregistration.
\<close>

definition close_inv :: "hub \<Rightarrow> event list \<Rightarrow> bool" where
  "close_inv s es \<longleftrightarrow>
     (\<forall>c\<in>set (unregistered es). closed (chans s (Send c)) \<longrightarrow>
        map_of (clients s) (UserID c) = None \<and> no_reclose (UserID c) (Send c) es)"

text \<open>
  Two users, and a second connection of the first user: another connection, another
  mailbox, the same identity.
\<close>

definition alice :: Client where
  "alice = \<lparr>Conn = 1, UserID = 1, Username = ''alice'', Send = 1\<rparr>"

definition bob :: Client where
  "bob = \<lparr>Conn = 2, UserID = 2, Username = ''bob'', Send = 2\<rparr>"

definition alice_again :: Client where
  "alice_again = \<lparr>Conn = 3, UserID = 1, Username = ''alice'', Send = 3\<rparr>"

text \<open>
  The hub with the first user registered (the state the loop is in after the event
  \<open>Register alice\<close>), and a message of hers to the second user.
\<close>

definition hub_alice :: hub where
  "hub_alice = NewWebSocketController\<lparr>clients := [(1, alice)]\<rparr>"

definition hi_to_bob :: Message where
  "hi_to_bob =
     \<lparr>SenderID = 1, SenderName = ''alice'', ReceiverID = 2, Content = ''hi'', Timestamp = 0\<rparr>"

section \<open>Route misses\<close>

lemma Lock_free: "\<not> mu s \<Longrightarrow> Lock s = Ok (s\<lparr>mu := True\<rparr>)"
  by (simp add: Lock_def)

lemma Unlock_held: "mu s \<Longrightarrow> Unlock s = Ok (s\<lparr>mu := False\<rparr>)"
  by (simp add: Unlock_def)

text \<open>
  Claim C6. A \<open>Broadcast\<close> event whose receiver has no entry in the registry completes,
  and the hub state after it is the state before it: the registry, every mailbox (the
  sender's too, so nothing is reported to the sender) and the frames already taken are
  unchanged. The mutex is free when the loop receives an event.
\<close>

theorem route_miss_unchanged:
  assumes "map_of (clients s) (ReceiverID m) = None" and "\<not> mu s"
  shows "Run_step (Broadcast m) s = Ok s"
  using assms by (simp add: broadcast_locked_def Lock_def Unlock_def)

lemma hub_alice_reached: "Run [Register alice] NewWebSocketController = Ok hub_alice"
  by (simp add: hub_alice_def NewWebSocketController_def register_locked_def Lock_def
      Unlock_def notifyUserStatus_def alice_def)

theorem route_miss_unchanged_witness:
  "clients hub_alice = [(1, alice)]
   \<and> map_of (clients hub_alice) (ReceiverID hi_to_bob) = None
   \<and> \<not> mu hub_alice
   \<and> Run_step (Broadcast hi_to_bob) hub_alice = Ok hub_alice"
proof -
  have a: "map_of (clients hub_alice) (ReceiverID hi_to_bob) = None"
    by (simp add: hub_alice_def hi_to_bob_def)
  have b: "\<not> mu hub_alice"
    by (simp add: hub_alice_def NewWebSocketController_def)
  have c: "clients hub_alice = [(1, alice)]"
    by (simp add: hub_alice_def)
  from route_miss_unchanged [OF a b] a b c show ?thesis by simp
qed

section \<open>Basic facts about the steps\<close>

lemma and_then_Ok_iff: "and_then r f = Ok y \<longleftrightarrow> (\<exists>x. r = Ok x \<and> f x = Ok y)"
  by (cases r) auto

lemma and_then_Panics_iff:
  "and_then r f = Panics p \<longleftrightarrow> r = Panics p \<or> (\<exists>x. r = Ok x \<and> f x = Panics p)"
  by (cases r) auto

lemma notified_Nil [simp]: "notified [] u = []"
  by (simp add: notified_def)

lemma notified_Cons [simp]:
  "notified ((k, c) # al) u = (if k \<noteq> u then c # notified al u else notified al u)"
  by (simp add: notified_def)

lemma notified_update [simp]: "notified (AList.update u c al) u = notified al u"
  by (induction al) (auto simp: notified_def)

lemma notified_delete [simp]: "notified (AList.delete u al) u = notified al u"
  by (induction al) (auto simp: notified_def)

lemma chan_send_room:
  "\<not> closed q \<Longrightarrow> length (buf q) < mailbox_cap \<Longrightarrow> chan_send q x = Ok (q\<lparr>buf := buf q @ [x]\<rparr>)"
  by (simp add: chan_send_def)

lemma register_locked_eq:
  "register_locked c s =
     (if mu s then Blocks else Ok (s\<lparr>clients := AList.update (UserID c) c (clients s)\<rparr>))"
  by (simp add: register_locked_def Lock_def Unlock_def)

lemma unregister_locked_eq:
  "unregister_locked c s =
     (if mu s then Blocks
      else if map_of (clients s) (UserID c) = None then Ok s
      else if closed (chans s (Send c)) then Panics CloseOfClosedChannel
      else Ok (s\<lparr>clients := AList.delete (UserID c) (clients s),
                 chans := (chans s)(Send c := (chans s (Send c))\<lparr>closed := True\<rparr>)\<rparr>))"
  by (cases "map_of (clients s) (UserID c)")
     (simp_all add: unregister_locked_def Lock_def Unlock_def chan_close_def)

lemma broadcast_locked_eq:
  "broadcast_locked m s =
     (if mu s then Blocks
      else case map_of (clients s) (ReceiverID m) of
        None \<Rightarrow> Ok s
      | Some receiver \<Rightarrow>
          (if closed (chans s (Send receiver)) then Panics SendOnClosedChannel
           else if length (buf (chans s (Send receiver))) < mailbox_cap
           then Ok (s\<lparr>chans := (chans s)(Send receiver :=
                    (chans s (Send receiver))\<lparr>buf := buf (chans s (Send receiver)) @ [Content m]\<rparr>)\<rparr>)
           else Blocks))"
  by (cases "map_of (clients s) (ReceiverID m)")
     (simp_all add: broadcast_locked_def Lock_def Unlock_def chan_send_def)

subsection \<open>The fan-out loop\<close>

lemma notify_range_Ok:
  assumes "distinct (map Send (notified al u))"
    and "\<forall>c\<in>set (notified al u).
           \<not> closed (ch (Send c)) \<and> length (buf (ch (Send c))) < mailbox_cap"
  shows "notify_range al u fr ch = Ok (deliver (notified al u) fr ch)"
  using assms
proof (induction al arbitrary: ch)
  case Nil
  then show ?case by (simp add: deliver_def)
next
  case (Cons a al)
  obtain k c where a: "a = (k, c)" by (cases a)
  show ?case
  proof (cases "k = u")
    case True
    with Cons a show ?thesis by simp
  next
    case False
    let ?q = "(ch (Send c))\<lparr>buf := buf (ch (Send c)) @ [fr]\<rparr>"
    let ?ch = "ch(Send c := ?q)"
    from Cons.prems a False have d: "distinct (map Send (notified al u))"
      and nin: "Send c \<notin> Send ` set (notified al u)" by auto
    from Cons.prems a False have s: "chan_send (ch (Send c)) fr = Ok ?q"
      by (simp add: chan_send_room)
    have r: "\<forall>c'\<in>set (notified al u).
        \<not> closed (?ch (Send c')) \<and> length (buf (?ch (Send c'))) < mailbox_cap"
    proof
      fix c' assume m: "c' \<in> set (notified al u)"
      then have "Send c' \<in> Send ` set (notified al u)" by (rule imageI)
      with nin have "Send c' \<noteq> Send c" by metis
      moreover from Cons.prems(2) a False m
      have "\<not> closed (ch (Send c')) \<and> length (buf (ch (Send c'))) < mailbox_cap" by simp
      ultimately show "\<not> closed (?ch (Send c')) \<and> length (buf (?ch (Send c'))) < mailbox_cap"
        by simp
    qed
    have "notify_range (a # al) u fr ch = notify_range al u fr ?ch"
      using a False s by simp
    also have "\<dots> = Ok (deliver (notified al u) fr ?ch)"
      by (rule Cons.IH [OF d r])
    also have "deliver (notified al u) fr ?ch = deliver (notified (a # al) u) fr ch"
      using a False nin by (auto simp: deliver_def fun_eq_iff)
    finally show ?thesis .
  qed
qed

lemma notify_range_closed:
  "notify_range al u fr ch = Ok ch' \<Longrightarrow> closed (ch' x) = closed (ch x)"
proof (induction al arbitrary: ch)
  case Nil
  then show ?case by simp
next
  case (Cons a al)
  obtain k c where a: "a = (k, c)" by (cases a)
  show ?case
  proof (cases "k = u")
    case True
    with Cons a show ?thesis by simp
  next
    case False
    with Cons.prems a obtain q where q: "chan_send (ch (Send c)) fr = Ok q"
      and r: "notify_range al u fr (ch(Send c := q)) = Ok ch'"
      by (cases "chan_send (ch (Send c)) fr") auto
    from q have "closed q = closed (ch (Send c))"
      by (auto simp: chan_send_def split: if_splits)
    with Cons.IH [OF r] show ?thesis by (simp split: if_splits)
  qed
qed

lemma notify_range_no_close_panic:
  "notify_range al u fr ch \<noteq> Panics CloseOfClosedChannel"
proof (induction al arbitrary: ch)
  case Nil
  then show ?case by simp
next
  case (Cons a al)
  obtain k c where a: "a = (k, c)" by (cases a)
  show ?case using Cons.IH a
    by (cases "chan_send (ch (Send c)) fr") (auto simp: chan_send_def split: if_splits)
qed

lemma notifyUserStatus_Ok:
  assumes "distinct (map Send (notified (clients s) u))"
    and "\<forall>c\<in>set (notified (clients s) u).
           \<not> closed (chans s (Send c)) \<and> length (buf (chans s (Send c))) < mailbox_cap"
  shows "notifyUserStatus u n b s =
     Ok (s\<lparr>chans := deliver (notified (clients s) u) (status_frame u n b) (chans s)\<rparr>)"
  by (simp add: notifyUserStatus_def notify_range_Ok [OF assms])

lemma notifyUserStatus_frame:
  assumes "notifyUserStatus u n b s = Ok s'"
  shows "clients s' = clients s" and "mu s' = mu s" and "taken s' = taken s"
    and "closed (chans s' x) = closed (chans s x)"
proof -
  from assms obtain ch where r: "notify_range (clients s) u (status_frame u n b) (chans s) = Ok ch"
    and s': "s' = s\<lparr>chans := ch\<rparr>"
    by (cases "notify_range (clients s) u (status_frame u n b) (chans s)")
       (auto simp: notifyUserStatus_def)
  from s' show "clients s' = clients s" and "mu s' = mu s" and "taken s' = taken s"
    by simp_all
  from notify_range_closed [OF r] s' show "closed (chans s' x) = closed (chans s x)"
    by simp
qed

lemma notifyUserStatus_no_close_panic:
  "notifyUserStatus u n b s \<noteq> Panics CloseOfClosedChannel"
  using notify_range_no_close_panic [of "clients s" u "status_frame u n b" "chans s"]
  by (cases "notify_range (clients s) u (status_frame u n b) (chans s)")
     (auto simp: notifyUserStatus_def)

subsection \<open>What a completed critical section leaves\<close>

lemma register_locked_frame:
  assumes "register_locked c s = Ok s1"
  shows "clients s1 = AList.update (UserID c) c (clients s)" and "chans s1 = chans s"
    and "taken s1 = taken s" and "\<not> mu s1"
  using assms by (auto simp: register_locked_eq split: if_splits)

lemma register_locked_no_close_panic:
  "register_locked c s \<noteq> Panics CloseOfClosedChannel"
  by (simp add: register_locked_eq)

lemma unregister_locked_frame:
  assumes "unregister_locked c s = Ok s1"
  shows "clients s1 = AList.delete (UserID c) (clients s)"
    and "x \<noteq> Send c \<Longrightarrow> chans s1 x = chans s x"
    and "taken s1 = taken s" and "\<not> mu s1"
  using assms
  by (auto simp: unregister_locked_eq map_of_eq_None_iff split: if_splits)

lemma unregister_locked_close_panic:
  assumes "unregister_locked c s = Panics CloseOfClosedChannel"
  shows "map_of (clients s) (UserID c) \<noteq> None" and "closed (chans s (Send c))"
  using assms by (auto simp: unregister_locked_eq split: if_splits)

lemma broadcast_locked_frame:
  assumes "broadcast_locked m s = Ok s1"
  shows "clients s1 = clients s" and "closed (chans s1 x) = closed (chans s x)"
    and "taken s1 = taken s" and "\<not> mu s1"
  using assms
  by (auto simp: broadcast_locked_eq split: if_splits option.splits)

lemma broadcast_locked_no_close_panic:
  "broadcast_locked m s \<noteq> Panics CloseOfClosedChannel"
  by (simp add: broadcast_locked_eq split: option.split)

subsection \<open>Register and unregister steps that complete\<close>

lemma fanout_readyD:
  assumes "fanout_ready s c"
  shows "\<not> mu s" and "distinct (map fst (clients s))"
    and "distinct (map Send (notified (clients s) (UserID c)))"
    and "\<forall>c'\<in>set (notified (clients s) (UserID c)).
           \<not> closed (chans s (Send c')) \<and> length (buf (chans s (Send c'))) < mailbox_cap"
    and "Send c \<notin> Send ` set (notified (clients s) (UserID c))"
  using assms by (auto simp: fanout_ready_def list_all_iff)

lemma register_step:
  assumes "fanout_ready s c"
  shows "Run_step (Register c) s =
     Ok (s\<lparr>clients := AList.update (UserID c) c (clients s),
           chans := deliver (notified (clients s) (UserID c))
                      (status_frame (UserID c) (Username c) True) (chans s)\<rparr>)"
proof -
  note r = fanout_readyD [OF assms]
  let ?s1 = "s\<lparr>clients := AList.update (UserID c) c (clients s)\<rparr>"
  have "notifyUserStatus (UserID c) (Username c) True ?s1 =
     Ok (?s1\<lparr>chans := deliver (notified (clients ?s1) (UserID c))
                  (status_frame (UserID c) (Username c) True) (chans ?s1)\<rparr>)"
    by (rule notifyUserStatus_Ok) (use r in simp_all)
  with r(1) show ?thesis by (simp add: register_locked_eq)
qed

lemma unregister_step_absent:
  assumes "fanout_ready s c" and "map_of (clients s) (UserID c) = None"
  shows "Run_step (Unregister c) s =
     Ok (s\<lparr>chans := deliver (notified (clients s) (UserID c))
                      (status_frame (UserID c) (Username c) False) (chans s)\<rparr>)"
proof -
  note r = fanout_readyD [OF assms(1)]
  have "notifyUserStatus (UserID c) (Username c) False s =
     Ok (s\<lparr>chans := deliver (notified (clients s) (UserID c))
                  (status_frame (UserID c) (Username c) False) (chans s)\<rparr>)"
    by (rule notifyUserStatus_Ok) (use r in simp_all)
  with r(1) assms(2) show ?thesis by (simp add: unregister_locked_eq)
qed

lemma unregister_step_present:
  assumes "fanout_ready s c" and "map_of (clients s) (UserID c) \<noteq> None"
    and "\<not> closed (chans s (Send c))"
  shows "Run_step (Unregister c) s =
     Ok (s\<lparr>clients := AList.delete (UserID c) (clients s),
           chans := deliver (notified (clients s) (UserID c))
                      (status_frame (UserID c) (Username c) False)
                      ((chans s)(Send c := (chans s (Send c))\<lparr>closed := True\<rparr>))\<rparr>)"
proof -
  note r = fanout_readyD [OF assms(1)]
  let ?s1 = "s\<lparr>clients := AList.delete (UserID c) (clients s),
           chans := (chans s)(Send c := (chans s (Send c))\<lparr>closed := True\<rparr>)\<rparr>"
  have "notifyUserStatus (UserID c) (Username c) False ?s1 =
     Ok (?s1\<lparr>chans := deliver (notified (clients ?s1) (UserID c))
                  (status_frame (UserID c) (Username c) False) (chans ?s1)\<rparr>)"
    by (rule notifyUserStatus_Ok) (use r in \<open>auto simp: image_iff\<close>)
  moreover from assms(2) obtain c' where "map_of (clients s) (UserID c) = Some c'" by auto
  ultimately show ?thesis using r(1) assms(3) by (simp add: unregister_locked_eq)
qed

end
